theory Spec2Isabelle
  imports Main
begin

section \<open>JavaScript values\<close>

text \<open>
  The fields of an xstat and of a File are dynamically typed. The values that the
  checks of \<^verbatim>\<open>file.js\<close> tell apart are modelled by one datatype; numbers are
  approximated by integers (no check of the source depends on a fraction).
\<close>

datatype jsval = JUndefined | JNull | JBool bool | JNum int | JStr string

text \<open>\<^verbatim>\<open>typeof v === 'string'\<close>\<close>

fun is_string :: "jsval \<Rightarrow> bool" where
  "is_string (JStr s) = True"
| "is_string v = False"

text \<open>The truth value of \<^verbatim>\<open>if (v)\<close>: the empty string, 0, null and undefined are falsy.\<close>

fun truthy :: "jsval \<Rightarrow> bool" where
  "truthy JUndefined = False"
| "truthy JNull = False"
| "truthy (JBool b) = b"
| "truthy (JNum n) = (n \<noteq> 0)"
| "truthy (JStr s) = (s \<noteq> [])"

section \<open>The File node (src/fruitmix/forest/file.js)\<close>

text \<open>The xstat record handed over by the directory scanner.\<close>

record xstat =
  xuuid :: jsval
  xname :: jsval
  xmagic :: jsval
  xhash :: jsval

text \<open>
  A hash worker created by \<^verbatim>\<open>hash(this.abspath(), this.uuid)\<close> that has not yet emitted
  its terminal event. \<open>aborted\<close> records that \<^verbatim>\<open>abort()\<close> has been called on it.
\<close>

record hashjob =
  jid :: nat
  jpath :: "jsval list"
  juuid :: jsval
  aborted :: bool

text \<open>
  The state that the methods of File read and write. The first group are the
  properties of the File object itself (\<open>paused\<close> and \<open>parent\<close> are inherited from
  Node; \<open>self\<close> stands for the identity of the object). The constructor of File
  does not set \<open>paused\<close>; every test of it is a truth test, under which the
  missing property counts as false. The second group is the part of the
  environment that the methods reach: the index kept by the root of the forest,
  the workers in flight, the counter that names the next worker, and the
  \<^verbatim>\<open>fileMissing\<close> notifications received by the owning directory.
\<close>

record filenode =
  self :: nat
  uuid :: jsval
  name :: jsval
  magic :: jsval
  hash :: jsval
  worker :: "nat option"
  hashFail :: int
  paused :: bool
  parent :: "jsval list option"
  idx :: "jsval \<Rightarrow> nat set"
  jobs :: "hashjob list"
  nextJob :: nat
  missing :: "string list"

text \<open>
  The exceptions thrown by file.js, one constructor per \<^verbatim>\<open>throw\<close>. \<open>NotInFlight\<close> is
  not an exception of the source: it marks a worker event that cannot occur because
  the worker it names has already emitted its terminal event.
\<close>

datatype error =
  FileMustHaveMagicString
| XstatHashMustBeStringOrUndefined
| AlreadyPaused
| XstatMagicMustBeString
| XstatUuidMismatch
| NotInFlight

text \<open>
  The constructor. \<open>ref\<close> is the identity of the new object; \<open>ix\<close>, \<open>js\<close> and \<open>n\<close>
  are the index, the workers in flight and the worker counter of the context
  \<^verbatim>\<open>ctx\<close> it is created in.
\<close>

definition File :: "nat \<Rightarrow> (jsval \<Rightarrow> nat set) \<Rightarrow> hashjob list \<Rightarrow> nat \<Rightarrow> xstat \<Rightarrow> error + filenode" where
  "File ref ix js n x =
     (if \<not> is_string (xmagic x) then Inl FileMustHaveMagicString
      else if xhash x \<noteq> JUndefined \<and> \<not> is_string (xhash x)
        then Inl XstatHashMustBeStringOrUndefined
      else Inr \<lparr> self = ref, uuid = xuuid x, name = xname x, magic = xmagic x,
                 hash = xhash x, worker = None, hashFail = 0, paused = False,
                 parent = None, idx = ix, jobs = js, nextJob = n, missing = [] \<rparr>)"

text \<open>
  Modelled from the spec: \<^verbatim>\<open>Node.abspath\<close> (node.js is not part of the sources)
  "concatenates names from the root to this node"; the parent back-reference is
  kept as the list of names from the root to the parent.
\<close>

definition abspath :: "filenode \<Rightarrow> jsval list" where
  "abspath f = (case parent f of None \<Rightarrow> [name f] | Some p \<Rightarrow> p @ [name f])"

text \<open>
  Modelled from the spec: the index of the root (not part of the sources) is
  "a mapping from digest to a set of File references"; \<^verbatim>\<open>index(file)\<close> inserts the
  file into the set of its digest (inserting twice does not change the set), and
  \<^verbatim>\<open>unindex(file)\<close> "removes the file from its current digest's set".
\<close>

definition root_index :: "filenode \<Rightarrow> filenode" where
  "root_index f = f\<lparr>idx := (idx f)(hash f := insert (self f) (idx f (hash f)))\<rparr>"

definition root_unindex :: "filenode \<Rightarrow> filenode" where
  "root_unindex f = f\<lparr>idx := (idx f)(hash f := idx f (hash f) - {self f})\<rparr>"

text \<open>\<^verbatim>\<open>index() { if (this.hash) this.root().index(this) }\<close>\<close>

definition index :: "filenode \<Rightarrow> filenode" where
  "index f = (if truthy (hash f) then root_index f else f)"

text \<open>\<^verbatim>\<open>unindex() { if (this.hash) this.root().unindex(this) }\<close>\<close>

definition unindex :: "filenode \<Rightarrow> filenode" where
  "unindex f = (if truthy (hash f) then root_unindex f else f)"

text \<open>
  \<^verbatim>\<open>startWorker\<close>: under the guard a worker is created for the current absolute path,
  stored in \<open>worker\<close>, given its two handlers and started. The handlers are
  \<open>on_error\<close> and \<open>on_finish\<close> below; they run when the worker emits.
\<close>

definition startWorker :: "filenode \<Rightarrow> filenode" where
  "startWorker f =
     (if \<not> truthy (hash f) \<and> \<not> paused f \<and> hashFail f < 5
      then f\<lparr> worker := Some (nextJob f),
              jobs := jobs f @ [\<lparr> jid = nextJob f, jpath = abspath f,
                                   juuid = uuid f, aborted = False \<rparr>],
              nextJob := Suc (nextJob f) \<rparr>
      else f)"

text \<open>
  Modelled from the spec: \<^verbatim>\<open>worker.abort()\<close> (the worker is not part of the sources)
  "issues a cancellation and returns immediately; the corresponding job
  acknowledges cancellation asynchronously". The call marks the worker; the
  acknowledgement is the later error event with code EABORT.
\<close>

definition abort :: "nat \<Rightarrow> hashjob list \<Rightarrow> hashjob list" where
  "abort w js = map (\<lambda>j. if jid j = w then j\<lparr>aborted := True\<rparr> else j) js"

text \<open>\<^verbatim>\<open>stopWorker() { if (this.worker) this.worker.abort() }\<close>\<close>

definition stopWorker :: "filenode \<Rightarrow> filenode" where
  "stopWorker f = (case worker f of None \<Rightarrow> f | Some w \<Rightarrow> f\<lparr>jobs := abort w (jobs f)\<rparr>)"

text \<open>
  Modelled from the spec: \<^verbatim>\<open>Node.attach\<close> "records the parent back-reference" and
  \<^verbatim>\<open>Node.detach\<close> clears it. The File methods wrap them as in the source.
\<close>

definition attach :: "jsval list \<Rightarrow> filenode \<Rightarrow> filenode" where
  "attach p f = startWorker (index (f\<lparr>parent := Some p\<rparr>))"

definition detach :: "filenode \<Rightarrow> filenode" where
  "detach f = (unindex (stopWorker f))\<lparr>parent := None\<rparr>"

definition pause :: "filenode \<Rightarrow> error + filenode" where
  "pause f = (if paused f then Inl AlreadyPaused else Inr ((stopWorker f)\<lparr>paused := True\<rparr>))"

definition resume :: "filenode \<Rightarrow> filenode" where
  "resume f = startWorker (f\<lparr>paused := False\<rparr>)"

text \<open>The three steps of \<^verbatim>\<open>update\<close> after its checks, in the order of the source.\<close>

definition update_name :: "xstat \<Rightarrow> filenode \<Rightarrow> filenode" where
  "update_name x f =
     (if name f \<noteq> xname x then startWorker ((stopWorker f)\<lparr>name := xname x\<rparr>) else f)"

definition update_hash :: "xstat \<Rightarrow> filenode \<Rightarrow> filenode" where
  "update_hash x f =
     (if hash f \<noteq> xhash x then index ((unindex f)\<lparr>hash := xhash x\<rparr>) else f)"

definition reset_hashFail :: "filenode \<Rightarrow> filenode" where
  "reset_hashFail f = (if hash f = JUndefined then f\<lparr>hashFail := 0\<rparr> else f)"

definition update :: "xstat \<Rightarrow> filenode \<Rightarrow> error + filenode" where
  "update x f =
     (if \<not> is_string (xmagic x) then Inl XstatMagicMustBeString
      else if xuuid x \<noteq> uuid f then Inl XstatUuidMismatch
      else if name f = xname x \<and> hash f = xhash x then Inr f
      else Inr (reset_hashFail (update_hash x (update_name x f))))"

text \<open>
  The handler of the worker's \<^verbatim>\<open>error\<close> event. The codes ENOTDIR and ENOENT are
  reported to the directory, EABORT is swallowed, every other code retries.
\<close>

definition on_error :: "string \<Rightarrow> filenode \<Rightarrow> filenode" where
  "on_error code f =
     (let f1 = f\<lparr>worker := None\<rparr> in
      if code = ''ENOTDIR'' \<or> code = ''ENOENT'' then f1\<lparr>missing := missing f1 @ [code]\<rparr>
      else if code = ''EABORT'' then f1
      else startWorker f1)"

text \<open>The handler of the worker's \<^verbatim>\<open>finish\<close> event.\<close>

definition on_finish :: "xstat \<Rightarrow> filenode \<Rightarrow> error + filenode" where
  "on_finish x f = update x (f\<lparr>worker := None\<rparr>)"

text \<open>
  What can happen to a File: a call of one of its methods, or a terminal event of
  a worker in flight, which leaves the set of workers in flight and runs its handler.
\<close>

datatype event =
  Attach "jsval list"
| Detach
| Pause
| Resume
| Update xstat
| WorkerError nat string
| WorkerFinish nat xstat

definition inflight :: "nat \<Rightarrow> filenode \<Rightarrow> bool" where
  "inflight w f = (w \<in> set (map jid (jobs f)))"

definition retire :: "nat \<Rightarrow> filenode \<Rightarrow> filenode" where
  "retire w f = f\<lparr>jobs := filter (\<lambda>j. jid j \<noteq> w) (jobs f)\<rparr>"

fun step :: "filenode \<Rightarrow> event \<Rightarrow> error + filenode" where
  "step f (Attach p) = Inr (attach p f)"
| "step f Detach = Inr (detach f)"
| "step f Pause = pause f"
| "step f Resume = Inr (resume f)"
| "step f (Update x) = update x f"
| "step f (WorkerError w code) =
     (if inflight w f then Inr (on_error code (retire w f)) else Inl NotInFlight)"
| "step f (WorkerFinish w x) =
     (if inflight w f then on_finish x (retire w f) else Inl NotInFlight)"

text \<open>A sequence of events stops at the first exception.\<close>

fun run :: "filenode \<Rightarrow> event list \<Rightarrow> error + filenode" where
  "run f [] = Inr f"
| "run f (e # es) = (case step f e of Inl err \<Rightarrow> Inl err | Inr f' \<Rightarrow> run f' es)"

section \<open>Chunked hashing (src/box/rs-T-ws.js, class Transfer_1)\<close>

text \<open>
  A buffer is a list of bytes, a digest the hexadecimal string that
  \<^verbatim>\<open>digest('hex')\<close> returns. SHA-256 itself belongs to the crypto library, not to
  this repository: every definition below takes it as the parameter \<open>H\<close>. A hash
  object (\<^verbatim>\<open>crypto.createHash('sha256')\<close>) is represented by the bytes it has been
  given by \<^verbatim>\<open>update\<close>; \<^verbatim>\<open>digest\<close> applies \<open>H\<close> to them.
\<close>

type_synonym buffer = "char list"

type_synonym digest = string

definition SIZE_1G :: nat where
  "SIZE_1G = 1024 * 1024 * 1024"

text \<open>
  \<^verbatim>\<open>Buffer.from(string)\<close> encodes the string in UTF-8; the strings passed in the
  source are hexadecimal digests, which are their own encoding.
\<close>

definition Buffer_from :: "string \<Rightarrow> buffer" where
  "Buffer_from s = s"

text \<open>
  \<^verbatim>\<open>buf.slice(start, end)\<close>: a negative index counts from the end of the buffer,
  both indices are clamped to the buffer, and an empty range gives the empty
  buffer. \<^verbatim>\<open>buf.slice(start)\<close> runs to the end.
\<close>

definition clamp_index :: "int \<Rightarrow> nat \<Rightarrow> nat" where
  "clamp_index i n = (if i < 0 then nat (int n + i) else min (nat i) n)"

definition slice :: "buffer \<Rightarrow> int \<Rightarrow> int \<Rightarrow> buffer" where
  "slice b s e =
     (let i = clamp_index s (length b); j = clamp_index e (length b)
      in take (j - i) (drop i b))"

definition slice_from :: "buffer \<Rightarrow> int \<Rightarrow> buffer" where
  "slice_from b s = drop (clamp_index s (length b)) b"

text \<open>What the callback of \<^verbatim>\<open>storeFile\<close> is called with.\<close>

datatype callback_value = Failure string | Success digest

text \<open>
  The field \<open>hashArr\<close> of the Transfer_1 object together with the local variables
  of \<^verbatim>\<open>storeFile\<close> (\<open>size'\<close> is the local \<^verbatim>\<open>size\<close>), and the calls of the
  callback made so far.
\<close>

record transfer =
  hashArr :: "digest list"
  size' :: int
  hashMaker :: buffer
  finished :: bool
  called :: "callback_value list"

text \<open>\<^verbatim>\<open>new Transfer_1()\<close> at the entry of \<^verbatim>\<open>storeFile\<close>.\<close>

definition Transfer_1 :: transfer where
  "Transfer_1 = \<lparr> hashArr = [], size' = 0, hashMaker = [], finished = False, called = [] \<rparr>"

definition error :: "string \<Rightarrow> transfer \<Rightarrow> transfer" where
  "error err t =
     (if finished t then t else t\<lparr>finished := True, called := called t @ [Failure err]\<rparr>)"

definition finish :: "digest \<Rightarrow> transfer \<Rightarrow> transfer" where
  "finish d t =
     (if finished t then t else t\<lparr>finished := True, called := called t @ [Success d]\<rparr>)"

text \<open>
  The handler of the read stream's \<^verbatim>\<open>data\<close> event. Its call of \<^verbatim>\<open>rs.pause()\<close>
  has no effect on the variables modelled here and is left out: the handler is
  a function of the chunk it receives.
\<close>

definition rs_data :: "(buffer \<Rightarrow> digest) \<Rightarrow> buffer \<Rightarrow> transfer \<Rightarrow> transfer" where
  "rs_data H chunk t =
     (if size' t + int (length chunk) \<ge> int SIZE_1G then
        let len = int SIZE_1G - size' t;
            rest = slice_from chunk len
        in t\<lparr> hashArr := hashArr t @ [H (hashMaker t @ slice chunk 0 len)],
               size' := int (length rest),
               hashMaker := rest \<rparr>
      else t\<lparr> size' := size' t + int (length chunk), hashMaker := hashMaker t @ chunk \<rparr>)"

text \<open>
  The loop of the \<^verbatim>\<open>close\<close> handler over \<^verbatim>\<open>hashArr[1..]\<close>: \<open>hm\<close> is what the
  current hash object has been given, the result is the digest passed to
  \<^verbatim>\<open>finish\<close> at the last index (none when the loop body never runs).
\<close>

fun chain :: "(buffer \<Rightarrow> digest) \<Rightarrow> buffer \<Rightarrow> digest list \<Rightarrow> digest option" where
  "chain H hm [] = None"
| "chain H hm [x] = Some (H (hm @ Buffer_from x))"
| "chain H hm (x # y # ys) = chain H (Buffer_from (H (hm @ Buffer_from x))) (y # ys)"

text \<open>
  The handler of the read stream's \<^verbatim>\<open>close\<close> event. The hash objects it creates
  for the combination live in \<open>chain\<close>; the field \<open>hashMaker\<close> keeps the bytes of
  the last segment.
\<close>

definition rs_close :: "(buffer \<Rightarrow> digest) \<Rightarrow> transfer \<Rightarrow> transfer" where
  "rs_close H t =
     (let digest = H (hashMaker t);
          t1 = t\<lparr>hashArr := hashArr t @ [digest]\<rparr>
      in if length (hashArr t1) = 1 then finish digest t1
         else (case chain H (Buffer_from (hd (hashArr t1))) (tl (hashArr t1)) of
                 None \<Rightarrow> t1
               | Some d \<Rightarrow> finish d t1))"

text \<open>The handler of the read stream's \<^verbatim>\<open>error\<close> event.\<close>

definition rs_error :: "string \<Rightarrow> transfer \<Rightarrow> transfer" where
  "rs_error err t = error err t"

text \<open>
  A read stream that does not fail delivers the content of the file as a sequence
  of chunks in offset order and then closes. \<^verbatim>\<open>fs.createReadStream(src)\<close> is
  called without options, so a chunk has at most 64 KiB.
\<close>

fun feed :: "(buffer \<Rightarrow> digest) \<Rightarrow> transfer \<Rightarrow> buffer list \<Rightarrow> transfer" where
  "feed H t [] = t"
| "feed H t (c # cs) = feed H (rs_data H c t) cs"

definition storeFile :: "(buffer \<Rightarrow> digest) \<Rightarrow> buffer list \<Rightarrow> transfer" where
  "storeFile H chunks = rs_close H (feed H Transfer_1 chunks)"

text \<open>
  The partition that the \<^verbatim>\<open>data\<close> handler computes, stated on the content: a piece
  is cut off as soon as \<open>n\<close> bytes are there, and what is left below \<open>n\<close> bytes,
  possibly nothing, is the last piece.
\<close>

function pieces :: "nat \<Rightarrow> buffer \<Rightarrow> buffer list" where
  "pieces n bs = (if n = 0 \<or> length bs < n then [bs] else take n bs # pieces n (drop n bs))"
  by pat_completeness auto
termination
  by (relation "measure (\<lambda>(n, bs). length bs)") auto

text \<open>
  The combination as the specification words it: the first two leaves are hashed
  together, and every further leaf is hashed together with the result so far.
\<close>

definition chained_combine :: "(buffer \<Rightarrow> digest) \<Rightarrow> digest list \<Rightarrow> digest" where
  "chained_combine H ls = foldl (\<lambda>acc l. H (acc @ l)) (hd ls) (tl ls)"

section \<open>The index invariant\<close>

text \<open>
  The digest of an xstat is "an optional fixed-length hex string": it is undefined
  or a string that is not empty.
\<close>

definition digest_ok :: "jsval \<Rightarrow> bool" where
  "digest_ok v \<longleftrightarrow> v = JUndefined \<or> (is_string v \<and> truthy v)"

fun event_ok :: "event \<Rightarrow> bool" where
  "event_ok (Update x) = digest_ok (xhash x)"
| "event_ok (WorkerFinish w x) = digest_ok (xhash x)"
| "event_ok e = True"

text \<open>
  The File is in no set of the index but that of its own digest, and an attached
  File with a digest is in that set.
\<close>

definition indexed_once :: "filenode \<Rightarrow> bool" where
  "indexed_once f \<longleftrightarrow>
     (\<forall>d. self f \<in> idx f d \<longrightarrow> d = hash f \<and> hash f \<noteq> JUndefined) \<and>
     (parent f \<noteq> None \<and> hash f \<noteq> JUndefined \<longrightarrow> self f \<in> idx f (hash f))"

section \<open>Concrete inputs\<close>

text \<open>An xstat without a digest, the File made from it, and that File attached below /root.\<close>

definition xstat_a :: xstat where
  "xstat_a = \<lparr>xuuid = JStr ''u1'', xname = JStr ''a'', xmagic = JStr ''JPEG'', xhash = JUndefined\<rparr>"

definition file_0 :: filenode where
  "file_0 = projr (File 0 (\<lambda>d. {}) [] 0 xstat_a)"

definition file_a :: filenode where
  "file_a = attach [JStr ''root''] file_0"

text \<open>The same file seen again under new names, and renamed with a new magic.\<close>

definition xstat_b :: xstat where
  "xstat_b = xstat_a\<lparr>xname := JStr ''b''\<rparr>"

definition xstat_c :: xstat where
  "xstat_c = xstat_a\<lparr>xname := JStr ''c''\<rparr>"

definition xstat_b_png :: xstat where
  "xstat_b_png = xstat_b\<lparr>xmagic := JStr ''PNG''\<rparr>"

text \<open>The same file with a digest, the File made from that xstat and attached, and its rename.\<close>

definition xstat_h :: xstat where
  "xstat_h = xstat_a\<lparr>xhash := JStr ''0f''\<rparr>"

definition file_h :: filenode where
  "file_h = attach [JStr ''root''] (projr (File 0 (\<lambda>d. {}) [] 0 xstat_h))"

definition xstat_hb :: xstat where
  "xstat_hb = xstat_h\<lparr>xname := JStr ''b''\<rparr>"

text \<open>The attached File once its worker has finished with a digest.\<close>

definition file_1 :: filenode where
  "file_1 = projr (run file_0 [Attach [JStr ''root''], WorkerFinish 0 xstat_h])"

text \<open>Five read failures in a row, each of the worker that is current when it fails, and
  the File after them.\<close>

definition five_errors :: "event list" where
  "five_errors = [WorkerError 0 ''EIO'', WorkerError 1 ''EIO'', WorkerError 2 ''EIO'',
                  WorkerError 3 ''EIO'', WorkerError 4 ''EIO'']"

definition file_5 :: filenode where
  "file_5 = projr (run file_0 (Attach [JStr ''root''] # five_errors))"

text \<open>A rename, the late acknowledgement of the worker it cancelled, and a second rename.\<close>

definition rename_ack_rename :: "event list" where
  "rename_ack_rename = [Update xstat_b, WorkerError 0 ''EABORT'', Update xstat_c]"

text \<open>The same with pause and resume in place of the renames.\<close>

definition pause_resume_ack :: "event list" where
  "pause_resume_ack = [Pause, Resume, WorkerError 0 ''EABORT'', Pause, Resume]"

text \<open>Files of exactly one segment and of two and a half segments, read in chunks of 64 KiB.\<close>

definition chunks_1G :: "buffer list" where
  "chunks_1G = replicate 16384 (replicate 65536 CHR ''a'')"

definition chunks_2_5G :: "buffer list" where
  "chunks_2_5G = replicate 40960 (replicate 65536 CHR ''a'')"

section \<open>Frame lemmas\<close>

text \<open>Which fields each method leaves alone.\<close>

lemma startWorker_frame [simp]:
  "self (startWorker f) = self f" "uuid (startWorker f) = uuid f" "name (startWorker f) = name f"
  "magic (startWorker f) = magic f" "hash (startWorker f) = hash f"
  "hashFail (startWorker f) = hashFail f" "paused (startWorker f) = paused f"
  "parent (startWorker f) = parent f" "idx (startWorker f) = idx f"
  "missing (startWorker f) = missing f"
  by (simp_all add: startWorker_def)

lemma stopWorker_frame [simp]:
  "self (stopWorker f) = self f" "uuid (stopWorker f) = uuid f" "name (stopWorker f) = name f"
  "magic (stopWorker f) = magic f" "hash (stopWorker f) = hash f"
  "worker (stopWorker f) = worker f" "nextJob (stopWorker f) = nextJob f"
  "hashFail (stopWorker f) = hashFail f" "paused (stopWorker f) = paused f"
  "parent (stopWorker f) = parent f" "idx (stopWorker f) = idx f"
  "missing (stopWorker f) = missing f"
  by (simp_all add: stopWorker_def split: option.splits)

lemma index_frame [simp]:
  "self (index f) = self f" "uuid (index f) = uuid f" "name (index f) = name f"
  "magic (index f) = magic f" "hash (index f) = hash f"
  "worker (index f) = worker f" "nextJob (index f) = nextJob f" "jobs (index f) = jobs f"
  "hashFail (index f) = hashFail f" "paused (index f) = paused f"
  "parent (index f) = parent f" "missing (index f) = missing f"
  by (simp_all add: index_def root_index_def)

lemma unindex_frame [simp]:
  "self (unindex f) = self f" "uuid (unindex f) = uuid f" "name (unindex f) = name f"
  "magic (unindex f) = magic f" "hash (unindex f) = hash f"
  "worker (unindex f) = worker f" "nextJob (unindex f) = nextJob f" "jobs (unindex f) = jobs f"
  "hashFail (unindex f) = hashFail f" "paused (unindex f) = paused f"
  "parent (unindex f) = parent f" "missing (unindex f) = missing f"
  by (simp_all add: unindex_def root_unindex_def)

lemma update_name_frame [simp]:
  "self (update_name x f) = self f" "uuid (update_name x f) = uuid f"
  "magic (update_name x f) = magic f" "hash (update_name x f) = hash f"
  "hashFail (update_name x f) = hashFail f" "paused (update_name x f) = paused f"
  "parent (update_name x f) = parent f" "idx (update_name x f) = idx f"
  "missing (update_name x f) = missing f"
  by (simp_all add: update_name_def)

lemma update_hash_frame [simp]:
  "self (update_hash x f) = self f" "uuid (update_hash x f) = uuid f" "name (update_hash x f) = name f"
  "magic (update_hash x f) = magic f" "hash (update_hash x f) = xhash x"
  "worker (update_hash x f) = worker f" "nextJob (update_hash x f) = nextJob f"
  "jobs (update_hash x f) = jobs f"
  "hashFail (update_hash x f) = hashFail f" "paused (update_hash x f) = paused f"
  "parent (update_hash x f) = parent f" "missing (update_hash x f) = missing f"
  by (simp_all add: update_hash_def)

lemma reset_hashFail_frame [simp]:
  "self (reset_hashFail f) = self f" "uuid (reset_hashFail f) = uuid f" "name (reset_hashFail f) = name f"
  "magic (reset_hashFail f) = magic f" "hash (reset_hashFail f) = hash f"
  "worker (reset_hashFail f) = worker f" "nextJob (reset_hashFail f) = nextJob f"
  "jobs (reset_hashFail f) = jobs f" "idx (reset_hashFail f) = idx f"
  "paused (reset_hashFail f) = paused f"
  "parent (reset_hashFail f) = parent f" "missing (reset_hashFail f) = missing f"
  by (simp_all add: reset_hashFail_def)

lemma on_error_frame [simp]:
  "self (on_error code f) = self f" "uuid (on_error code f) = uuid f" "name (on_error code f) = name f"
  "magic (on_error code f) = magic f" "hash (on_error code f) = hash f"
  "hashFail (on_error code f) = hashFail f" "paused (on_error code f) = paused f"
  "parent (on_error code f) = parent f" "idx (on_error code f) = idx f"
  by (simp_all add: on_error_def Let_def)

lemma retire_frame [simp]:
  "self (retire w f) = self f" "uuid (retire w f) = uuid f" "name (retire w f) = name f"
  "magic (retire w f) = magic f" "hash (retire w f) = hash f" "worker (retire w f) = worker f"
  "nextJob (retire w f) = nextJob f"
  "hashFail (retire w f) = hashFail f" "paused (retire w f) = paused f"
  "parent (retire w f) = parent f" "idx (retire w f) = idx f" "missing (retire w f) = missing f"
  by (simp_all add: retire_def)

lemmas model_defs =
  File_def attach_def index_def root_index_def unindex_def root_unindex_def
  startWorker_def stopWorker_def abort_def abspath_def
  update_def update_name_def update_hash_def reset_hashFail_def
  on_error_def on_finish_def inflight_def retire_def pause_def resume_def detach_def

lemmas file_a_defs = xstat_a_def file_0_def file_a_def

section \<open>The constructor and update\<close>

text \<open>
  C9. Constructing a File throws not only when the magic of the xstat is not a
  string but also when its hash is defined and not a string: the constructor
  throws exactly in these two cases, and the xstat with magic 'JPEG' and the
  number 1 as hash is rejected with the second error.
\<close>

theorem File_throws_iff:
  "(isl (File ref ix js n x) \<longleftrightarrow>
      \<not> is_string (xmagic x) \<or> (xhash x \<noteq> JUndefined \<and> \<not> is_string (xhash x)))
   \<and> is_string (xmagic \<lparr>xuuid = JStr ''u'', xname = JStr ''a'', xmagic = JStr ''JPEG'', xhash = JNum 1\<rparr>)
   \<and> File ref ix js n \<lparr>xuuid = JStr ''u'', xname = JStr ''a'', xmagic = JStr ''JPEG'', xhash = JNum 1\<rparr>
       = Inl XstatHashMustBeStringOrUndefined"
  by (simp add: File_def)

theorem File_throws_iff_witness:
  "isl (File 0 (\<lambda>d. {}) [] 0 \<lparr>xuuid = JStr ''u'', xname = JStr ''a'', xmagic = JStr ''JPEG'', xhash = JNull\<rparr>)
   \<and> isl (File 0 (\<lambda>d. {}) [] 0 \<lparr>xuuid = JStr ''u'', xname = JStr ''a'', xmagic = JNum 7, xhash = JUndefined\<rparr>)"
  using File_throws_iff [of 0 "\<lambda>d. {}" "[]" 0
      "\<lparr>xuuid = JStr ''u'', xname = JStr ''a'', xmagic = JStr ''JPEG'', xhash = JNull\<rparr>"]
    File_throws_iff [of 0 "\<lambda>d. {}" "[]" 0
      "\<lparr>xuuid = JStr ''u'', xname = JStr ''a'', xmagic = JNum 7, xhash = JUndefined\<rparr>"]
  by simp

text \<open>
  C10. An update that is accepted leaves the uuid, the magic and the paused flag
  of the File as they were; the magic of the xstat is checked to be a string and
  then never written, so a changed magic is dropped.
\<close>

theorem update_frame:
  "update x f = Inr f' \<Longrightarrow> uuid f' = uuid f \<and> magic f' = magic f \<and> paused f' = paused f"
  by (auto simp: update_def split: if_splits)

theorem update_frame_witness:
  "xmagic xstat_b_png = JStr ''PNG''
   \<and> update xstat_b_png file_a = Inr (projr (update xstat_b_png file_a))
   \<and> name (projr (update xstat_b_png file_a)) = JStr ''b''
   \<and> uuid (projr (update xstat_b_png file_a)) = JStr ''u1''
   \<and> magic (projr (update xstat_b_png file_a)) = JStr ''JPEG''
   \<and> paused (projr (update xstat_b_png file_a)) = False"
proof -
  have u: "update xstat_b_png file_a = Inr (projr (update xstat_b_png file_a))"
    by (simp add: model_defs file_a_defs xstat_b_def xstat_b_png_def)
  have "uuid file_a = JStr ''u1''" "magic file_a = JStr ''JPEG''" "paused file_a = False"
    by (simp_all add: model_defs file_a_defs xstat_b_def xstat_b_png_def)
  with update_frame [OF u] u show ?thesis
    by (simp add: model_defs file_a_defs xstat_b_def xstat_b_png_def)
qed

text \<open>
  C8, as amended. update throws exactly when the magic of the xstat is not a
  string or its uuid is not that of the File. When it is accepted and neither
  name nor hash differs, the state is unchanged. When it is accepted and the name
  differs, the active worker (if any) is sent \<^verbatim>\<open>abort\<close>, the File takes the new
  name, and a worker is started for the new path only under the guard of
  \<^verbatim>\<open>startWorker\<close>: the File has no hash (before the update), is not paused and has
  fewer than 5 failures. Otherwise no worker is started.
\<close>

theorem update_contract:
  "(isl (update x f) \<longleftrightarrow> \<not> is_string (xmagic x) \<or> xuuid x \<noteq> uuid f)
   \<and> (is_string (xmagic x) \<and> xuuid x = uuid f \<and> name f = xname x \<and> hash f = xhash x
        \<longrightarrow> update x f = Inr f)
   \<and> (is_string (xmagic x) \<and> xuuid x = uuid f \<and> name f \<noteq> xname x
        \<longrightarrow> \<not> isl (update x f)
          \<and> name (projr (update x f)) = xname x
          \<and> jobs (projr (update x f)) =
              (case worker f of None \<Rightarrow> jobs f | Some w \<Rightarrow> abort w (jobs f)) @
              (if \<not> truthy (hash f) \<and> \<not> paused f \<and> hashFail f < 5
               then [\<lparr> jid = nextJob f, jpath = abspath (f\<lparr>name := xname x\<rparr>),
                        juuid = uuid f, aborted = False \<rparr>]
               else [])
          \<and> worker (projr (update x f)) =
              (if \<not> truthy (hash f) \<and> \<not> paused f \<and> hashFail f < 5
               then Some (nextJob f) else worker f))"
  by (auto simp: update_def update_name_def startWorker_def stopWorker_def abspath_def
           split: option.splits)

theorem update_contract_witness:
  "is_string (xmagic xstat_b) \<and> xuuid xstat_b = uuid file_a \<and> name file_a \<noteq> xname xstat_b
   \<and> name (projr (update xstat_b file_a)) = JStr ''b''
   \<and> map jid (jobs (projr (update xstat_b file_a))) = [0, 1]
   \<and> map aborted (jobs (projr (update xstat_b file_a))) = [True, False]
   \<and> map jpath (jobs (projr (update xstat_b file_a))) =
        [[JStr ''root'', JStr ''a''], [JStr ''root'', JStr ''b'']]
   \<and> worker (projr (update xstat_b file_a)) = Some 1
   \<and> is_string (xmagic xstat_a) \<and> xuuid xstat_a = uuid file_a
   \<and> name file_a = xname xstat_a \<and> hash file_a = xhash xstat_a
   \<and> update xstat_a file_a = Inr file_a
   \<and> isl (update (xstat_a\<lparr>xuuid := JStr ''u2''\<rparr>) file_a)"
proof -
  have b: "is_string (xmagic xstat_b)" "xuuid xstat_b = uuid file_a" "name file_a \<noteq> xname xstat_b"
    and a: "is_string (xmagic xstat_a)" "xuuid xstat_a = uuid file_a"
      "name file_a = xname xstat_a" "hash file_a = xhash xstat_a"
    and c: "xuuid (xstat_a\<lparr>xuuid := JStr ''u2''\<rparr>) \<noteq> uuid file_a"
    by (simp_all add: model_defs file_a_defs xstat_b_def)
  have w: "worker file_a = Some 0" "nextJob file_a = 1" "\<not> truthy (hash file_a)"
      "\<not> paused file_a" "hashFail file_a = 0" "uuid file_a = JStr ''u1''"
      "jobs file_a = [\<lparr>jid = 0, jpath = [JStr ''root'', JStr ''a''], juuid = JStr ''u1'',
                       aborted = False\<rparr>]"
      "abspath (file_a\<lparr>name := JStr ''b''\<rparr>) = [JStr ''root'', JStr ''b'']"
      "xname xstat_b = JStr ''b''"
    by (simp_all add: model_defs file_a_defs xstat_b_def)
  from update_contract [of xstat_b file_a] b
  have "name (projr (update xstat_b file_a)) = JStr ''b''
      \<and> map jid (jobs (projr (update xstat_b file_a))) = [0, 1]
      \<and> map aborted (jobs (projr (update xstat_b file_a))) = [True, False]
      \<and> map jpath (jobs (projr (update xstat_b file_a))) =
           [[JStr ''root'', JStr ''a''], [JStr ''root'', JStr ''b'']]
      \<and> worker (projr (update xstat_b file_a)) = Some 1"
    by (simp add: w abort_def)
  moreover from update_contract [of xstat_a file_a] a
  have "update xstat_a file_a = Inr file_a" by simp
  moreover from update_contract [of "xstat_a\<lparr>xuuid := JStr ''u2''\<rparr>" file_a] c
  have "isl (update (xstat_a\<lparr>xuuid := JStr ''u2''\<rparr>) file_a)" by simp
  ultimately show ?thesis using a b by simp
qed

text \<open>
  The claim as stated fails for a File that has a digest: renaming it starts no
  worker.
\<close>

theorem update_rename_hashed_counterexample:
  "is_string (xmagic xstat_hb) \<and> xuuid xstat_hb = uuid file_h \<and> name file_h \<noteq> xname xstat_hb
   \<and> update xstat_hb file_h = Inr (file_h\<lparr>name := JStr ''b''\<rparr>)
   \<and> jobs (file_h\<lparr>name := JStr ''b''\<rparr>) = []
   \<and> worker (file_h\<lparr>name := JStr ''b''\<rparr>) = None"
  by (simp add: model_defs file_a_defs xstat_h_def xstat_hb_def file_h_def)

section \<open>Pause, and the failure counter\<close>

text \<open>
  C5, as amended. pause throws exactly when the File is already paused.
  Otherwise it sends \<^verbatim>\<open>abort\<close> to the active worker (if any) and sets the paused
  flag, and changes nothing else: the handle \<open>worker\<close> still names the cancelled
  worker when pause returns. The handle is cleared by the handler of the
  worker's error event, when the acknowledgement (EABORT) arrives.
\<close>

theorem pause_contract:
  "(isl (pause f) \<longleftrightarrow> paused f)
   \<and> (\<not> paused f \<longrightarrow>
        pause f = Inr (f\<lparr> jobs := (case worker f of None \<Rightarrow> jobs f | Some w \<Rightarrow> abort w (jobs f)),
                          paused := True \<rparr>)
        \<and> worker (projr (pause f)) = worker f
        \<and> worker (on_error ''EABORT'' (projr (pause f))) = None)"
  by (auto simp: pause_def stopWorker_def on_error_def split: option.splits)

theorem pause_contract_witness:
  "\<not> paused file_a
   \<and> paused (projr (pause file_a))
   \<and> map aborted (jobs (projr (pause file_a))) = [True]
   \<and> worker (on_error ''EABORT'' (projr (pause file_a))) = None"
  using pause_contract [of file_a]
  by (simp add: model_defs file_a_defs)

text \<open>The claim as stated fails for a File with a worker: the handle survives pause.\<close>

theorem pause_keeps_handle_counterexample:
  "\<not> paused file_a \<and> worker file_a = Some 0
   \<and> \<not> isl (pause file_a) \<and> worker (projr (pause file_a)) = Some 0"
  by (simp add: model_defs file_a_defs)

lemma hashFail_zero_step: "step f e = Inr f' \<Longrightarrow> hashFail f = 0 \<Longrightarrow> hashFail f' = 0"
  by (cases e)
     (auto simp: update_def reset_hashFail_def attach_def detach_def pause_def resume_def
                 on_finish_def split: if_splits)

lemma hashFail_zero_run: "run f es = Inr f' \<Longrightarrow> hashFail f = 0 \<Longrightarrow> hashFail f' = 0"
proof (induction es arbitrary: f)
  case Nil
  then show ?case by simp
next
  case (Cons e es)
  from Cons.prems(1) obtain g where g: "step f e = Inr g" "run g es = Inr f'"
    by (auto split: sum.splits)
  from hashFail_zero_step [OF g(1) Cons.prems(2)] Cons.IH [OF g(2)] show ?case by simp
qed



text \<open>
  C1. What the code does instead of counting: on every run from the constructor
  the failure counter is 0, and whenever a worker of a File without a hash that
  is not paused fails with a code other than ENOTDIR, ENOENT and EABORT, a new
  worker is started at once and the counter is still 0. So the counter is never
  incremented and the retries have no bound.
\<close>

theorem hashFail_never_counts:
  assumes "File ref ix js n x = Inr f0" and "run f0 es = Inr f"
  shows "hashFail f = 0 \<and>
    (\<forall>w code. inflight w f \<longrightarrow> code \<notin> {''ENOTDIR'', ''ENOENT'', ''EABORT''} \<longrightarrow>
        \<not> truthy (hash f) \<longrightarrow> \<not> paused f \<longrightarrow>
        \<not> isl (step f (WorkerError w code)) \<and>
        hashFail (projr (step f (WorkerError w code))) = 0 \<and>
        worker (projr (step f (WorkerError w code))) = Some (nextJob f) \<and>
        nextJob f \<in> set (map jid (jobs (projr (step f (WorkerError w code))))))"
proof -
  from assms(1) have "hashFail f0 = 0"
    by (auto simp: File_def split: if_splits)
  with assms(2) have z: "hashFail f = 0"
    by (rule hashFail_zero_run)
  then show ?thesis
    by (simp add: on_error_def startWorker_def retire_def)
qed

theorem hashFail_never_counts_witness:
  "File 0 (\<lambda>d. {}) [] 0 xstat_a = Inr file_0
   \<and> run file_0 (Attach [JStr ''root''] # five_errors) = Inr file_5
   \<and> hashFail file_5 = 0 \<and> worker file_5 = Some 5 \<and> map jid (jobs file_5) = [5]
   \<and> hashFail (projr (step file_5 (WorkerError 5 ''EIO''))) = 0
   \<and> worker (projr (step file_5 (WorkerError 5 ''EIO''))) = Some 6"
proof -
  have h1: "File 0 (\<lambda>d. {}) [] 0 xstat_a = Inr file_0"
    by (simp add: model_defs file_a_defs)
  have h2: "run file_0 (Attach [JStr ''root''] # five_errors) = Inr file_5"
    by (simp add: file_5_def model_defs file_a_defs five_errors_def)
  have s: "worker file_5 = Some 5" "map jid (jobs file_5) = [5]" "nextJob file_5 = 6"
      "inflight 5 file_5" "\<not> truthy (hash file_5)" "\<not> paused file_5"
    by (simp_all add: file_5_def model_defs file_a_defs five_errors_def)
  from hashFail_never_counts [OF h1 h2] s h1 h2 show ?thesis by simp
qed

section \<open>One worker at a time\<close>

text \<open>
  C4. What the code does with a late acknowledgement. The attached File is
  renamed while its worker 0 runs: worker 0 is sent \<^verbatim>\<open>abort\<close> and worker 1 is
  started, so both are in flight. When worker 0 acknowledges (EABORT), its
  handler clears the handle, which by then names worker 1: the live worker is
  no longer tracked. The next rename therefore cancels nothing and starts
  worker 2, and two workers that were never cancelled are in flight. The same
  happens when the File is paused and resumed before worker 0 acknowledges,
  and then paused and resumed again.
\<close>

theorem stale_acknowledgement_two_jobs:
  "worker file_a = Some 0
   \<and> worker (projr (run file_a (take 1 rename_ack_rename))) = Some 1
   \<and> map jid (jobs (projr (run file_a (take 1 rename_ack_rename)))) = [0, 1]
   \<and> map aborted (jobs (projr (run file_a (take 1 rename_ack_rename)))) = [True, False]
   \<and> worker (projr (run file_a (take 2 rename_ack_rename))) = None
   \<and> map jid (jobs (projr (run file_a (take 2 rename_ack_rename)))) = [1]
   \<and> \<not> isl (run file_a rename_ack_rename)
   \<and> worker (projr (run file_a rename_ack_rename)) = Some 2
   \<and> map jid (jobs (projr (run file_a rename_ack_rename))) = [1, 2]
   \<and> map aborted (jobs (projr (run file_a rename_ack_rename))) = [False, False]
   \<and> worker (projr (run file_a (take 2 pause_resume_ack))) = Some 1
   \<and> map aborted (jobs (projr (run file_a (take 2 pause_resume_ack)))) = [True, False]
   \<and> worker (projr (run file_a (take 3 pause_resume_ack))) = None
   \<and> map jid (jobs (projr (run file_a (take 3 pause_resume_ack)))) = [1]
   \<and> \<not> isl (run file_a pause_resume_ack)
   \<and> map jid (jobs (projr (run file_a pause_resume_ack))) = [1, 2]
   \<and> map aborted (jobs (projr (run file_a pause_resume_ack))) = [False, False]"
  by (simp add: model_defs file_a_defs xstat_b_def xstat_c_def rename_ack_rename_def pause_resume_ack_def)

section \<open>The index\<close>

lemma digest_ok_truthy: "digest_ok v \<Longrightarrow> truthy v \<longleftrightarrow> v \<noteq> JUndefined"
  by (auto simp: digest_ok_def)

lemma idx_index: "idx (index f) =
    (if truthy (hash f) then (idx f)(hash f := insert (self f) (idx f (hash f))) else idx f)"
  by (simp add: index_def root_index_def)

lemma idx_unindex: "idx (unindex f) =
    (if truthy (hash f) then (idx f)(hash f := idx f (hash f) - {self f}) else idx f)"
  by (simp add: unindex_def root_unindex_def)

lemma unindex_clears:
  assumes "indexed_once f" "digest_ok (hash f)"
  shows "self f \<notin> idx (unindex f) d"
  using assms by (auto simp: indexed_once_def idx_unindex digest_ok_truthy)

lemma indexed_onceD:
  assumes "indexed_once f"
  shows "self f \<in> idx f d \<Longrightarrow> d = hash f" and "self f \<in> idx f d \<Longrightarrow> hash f \<noteq> JUndefined"
    and "parent f \<noteq> None \<Longrightarrow> hash f \<noteq> JUndefined \<Longrightarrow> self f \<in> idx f (hash f)"
  using assms unfolding indexed_once_def by blast+

lemma indexed_onceI:
  assumes "\<And>d. self f \<in> idx f d \<Longrightarrow> d = hash f \<and> hash f \<noteq> JUndefined"
    and "parent f \<noteq> None \<Longrightarrow> hash f \<noteq> JUndefined \<Longrightarrow> self f \<in> idx f (hash f)"
  shows "indexed_once f"
  using assms unfolding indexed_once_def by blast

lemma indexed_once_cong:
  "self g = self f \<Longrightarrow> idx g = idx f \<Longrightarrow> hash g = hash f \<Longrightarrow> parent g = parent f
   \<Longrightarrow> indexed_once g = indexed_once f"
  by (simp add: indexed_once_def)

lemma indexed_once_attach:
  assumes "indexed_once f" "digest_ok (hash f)"
  shows "indexed_once (attach p f)"
proof (rule indexed_onceI)
  have t: "truthy (hash f) \<longleftrightarrow> hash f \<noteq> JUndefined"
    using assms(2) by (rule digest_ok_truthy)
  have s: "self (attach p f) = self f" "hash (attach p f) = hash f"
    by (simp_all add: attach_def)
  have i: "idx (attach p f) =
      (if hash f \<noteq> JUndefined then (idx f)(hash f := insert (self f) (idx f (hash f))) else idx f)"
    by (simp add: attach_def idx_index t)
  show "d = hash (attach p f) \<and> hash (attach p f) \<noteq> JUndefined"
    if "self (attach p f) \<in> idx (attach p f) d" for d
    using that indexed_onceD(1,2) [OF assms(1), of d]
    by (simp add: s i split: if_splits)
  show "self (attach p f) \<in> idx (attach p f) (hash (attach p f))"
    if "hash (attach p f) \<noteq> JUndefined"
    using that by (simp add: s i)
qed

lemma indexed_once_detach:
  assumes "indexed_once f" "digest_ok (hash f)"
  shows "indexed_once (detach f)"
proof (rule indexed_onceI)
  have "indexed_once (stopWorker f)"
    using assms(1) indexed_once_cong [of "stopWorker f" f] by simp
  then have "self f \<notin> idx (unindex (stopWorker f)) d" for d
    using unindex_clears [of "stopWorker f" d] assms(2) by simp
  then show "d = hash (detach f) \<and> hash (detach f) \<noteq> JUndefined"
    if "self (detach f) \<in> idx (detach f) d" for d
    using that by (simp add: detach_def)
  show "self (detach f) \<in> idx (detach f) (hash (detach f))"
    if "parent (detach f) \<noteq> None"
    using that by (simp add: detach_def)
qed

lemma indexed_once_update_name:
  "indexed_once f \<Longrightarrow> indexed_once (update_name x f)"
  using indexed_once_cong [of "update_name x f" f] by simp

lemma indexed_once_update_hash:
  assumes "indexed_once f" "digest_ok (hash f)" "digest_ok (xhash x)"
  shows "indexed_once (update_hash x f)"
proof (cases "hash f = xhash x")
  case True
  with assms show ?thesis by (simp add: update_hash_def)
next
  case False
  have clear: "\<And>d. self f \<notin> idx (unindex f) d"
    using unindex_clears [OF assms(1,2)] by simp
  have t: "truthy (xhash x) \<longleftrightarrow> xhash x \<noteq> JUndefined"
    using assms(3) by (rule digest_ok_truthy)
  have i: "idx (update_hash x f) =
      (if xhash x \<noteq> JUndefined
       then (idx (unindex f))(xhash x := insert (self f) (idx (unindex f) (xhash x)))
       else idx (unindex f))"
    using False by (simp add: update_hash_def idx_index t)
  show ?thesis
  proof (rule indexed_onceI)
    show "d = hash (update_hash x f) \<and> hash (update_hash x f) \<noteq> JUndefined"
      if "self (update_hash x f) \<in> idx (update_hash x f) d" for d
      using that clear by (simp add: i split: if_splits)
    show "self (update_hash x f) \<in> idx (update_hash x f) (hash (update_hash x f))"
      if "hash (update_hash x f) \<noteq> JUndefined"
      using that by (simp add: i)
  qed
qed

lemma indexed_once_reset: "indexed_once f \<Longrightarrow> indexed_once (reset_hashFail f)"
  using indexed_once_cong [of "reset_hashFail f" f] by simp

lemma indexed_once_update:
  assumes "indexed_once f" "digest_ok (hash f)" "digest_ok (xhash x)" "update x f = Inr f'"
  shows "indexed_once f' \<and> digest_ok (hash f')"
proof (cases "name f = xname x \<and> hash f = xhash x")
  case True
  with assms show ?thesis by (auto simp: update_def split: if_splits)
next
  case False
  with assms(4) have f': "f' = reset_hashFail (update_hash x (update_name x f))"
    by (auto simp: update_def split: if_splits)
  have "indexed_once (update_hash x (update_name x f))"
    using assms(1,2,3) by (intro indexed_once_update_hash indexed_once_update_name) simp_all
  then show ?thesis using assms(3) by (simp add: f' indexed_once_reset)
qed

lemma indexed_once_step:
  assumes "indexed_once f" "digest_ok (hash f)" "event_ok e" "step f e = Inr f'"
  shows "indexed_once f' \<and> digest_ok (hash f')"
proof (cases e)
  case (Attach p)
  with assms(4) have "f' = attach p f" by simp
  then show ?thesis using indexed_once_attach [OF assms(1,2), of p] assms(2)
    by (simp add: attach_def)
next
  case Detach
  with assms(4) have "f' = detach f" by simp
  then show ?thesis using indexed_once_detach [OF assms(1,2)] assms(2)
    by (simp add: detach_def)
next
  case Pause
  with assms(4) have "f' = (stopWorker f)\<lparr>paused := True\<rparr>"
    by (simp add: pause_def split: if_splits)
  then show ?thesis using assms(1,2) indexed_once_cong [of f' f] by simp
next
  case Resume
  with assms(4) have "f' = startWorker (f\<lparr>paused := False\<rparr>)"
    by (simp add: resume_def)
  then show ?thesis using assms(1,2) indexed_once_cong [of f' f] by simp
next
  case (Update x)
  with assms show ?thesis using indexed_once_update [of f x f'] by simp
next
  case (WorkerError w code)
  with assms(4) have "f' = on_error code (retire w f)"
    by (simp split: if_splits)
  then show ?thesis using assms(1,2) indexed_once_cong [of f' f] by simp
next
  case (WorkerFinish w x)
  with assms(4) have u: "update x ((retire w f)\<lparr>worker := None\<rparr>) = Inr f'"
    by (simp add: on_finish_def split: if_splits)
  have "indexed_once ((retire w f)\<lparr>worker := None\<rparr>)"
    using assms(1) indexed_once_cong [of "(retire w f)\<lparr>worker := None\<rparr>" f] by simp
  moreover have "digest_ok (hash ((retire w f)\<lparr>worker := None\<rparr>))"
    using assms(2) by simp
  moreover have "digest_ok (xhash x)"
    using assms(3) WorkerFinish by simp
  ultimately show ?thesis
    using indexed_once_update [OF _ _ _ u] by blast
qed

lemma indexed_once_run:
  "indexed_once f \<Longrightarrow> digest_ok (hash f) \<Longrightarrow> list_all event_ok es \<Longrightarrow> run f es = Inr f'
   \<Longrightarrow> indexed_once f' \<and> digest_ok (hash f')"
proof (induction es arbitrary: f)
  case Nil
  then show ?case by simp
next
  case (Cons e es)
  from Cons.prems(4) obtain g where g: "step f e = Inr g" "run g es = Inr f'"
    by (auto split: sum.splits)
  from Cons.prems g(1) have "indexed_once g \<and> digest_ok (hash g)"
    using indexed_once_step [of f e g] by simp
  with Cons.IH [of g] Cons.prems(3) g(2) show ?case by simp
qed

lemma indexed_once_File:
  assumes "File ref ix js n x = Inr f" and "\<forall>d. ref \<notin> ix d" and "digest_ok (xhash x)"
  shows "indexed_once f \<and> digest_ok (hash f)"
proof -
  from assms(1) have f: "self f = ref" "idx f = ix" "hash f = xhash x" "parent f = None"
    by (auto simp: File_def split: if_splits)
  have "indexed_once f"
    by (rule indexed_onceI) (use assms(2) f in simp_all)
  then show ?thesis using assms(3) f by simp
qed

text \<open>
  C7. Take a File made by the constructor from an xstat with a well-formed
  digest, not yet in the index, and any sequence of method calls and worker
  events with well-formed digests that throws nothing. If the File is attached
  afterwards, it has a digest exactly when it is in the index set of that
  digest, and it is in no other set of the index. Moreover every accepted update
  that changes the digest takes the File out of the set of the old digest and,
  when the new digest is defined, puts it into the set of the new one.
\<close>

theorem digest_indexed_exactly_once:
  assumes "File ref ix js n x = Inr f0" and "\<forall>d. ref \<notin> ix d" and "digest_ok (xhash x)"
    and "list_all event_ok es" and "run f0 es = Inr f"
  shows "(parent f \<noteq> None \<longrightarrow>
            (hash f \<noteq> JUndefined \<longleftrightarrow> self f \<in> idx f (hash f)) \<and>
            (\<forall>d. self f \<in> idx f d \<longrightarrow> d = hash f))
         \<and> (\<forall>y f'. digest_ok (xhash y) \<longrightarrow> update y f = Inr f' \<longrightarrow> hash f' \<noteq> hash f \<longrightarrow>
              self f \<notin> idx f' (hash f) \<and>
              (hash f' \<noteq> JUndefined \<longrightarrow> self f \<in> idx f' (hash f')))"
proof -
  have inv: "indexed_once f" "digest_ok (hash f)"
    using indexed_once_run [of f0 es f] indexed_once_File [OF assms(1,2,3)] assms(4,5) by simp_all
  have first: "parent f \<noteq> None \<longrightarrow>
            (hash f \<noteq> JUndefined \<longleftrightarrow> self f \<in> idx f (hash f)) \<and>
            (\<forall>d. self f \<in> idx f d \<longrightarrow> d = hash f)"
    using indexed_onceD [OF inv(1)] by blast
  have second: "self f \<notin> idx f' (hash f) \<and> (hash f' \<noteq> JUndefined \<longrightarrow> self f \<in> idx f' (hash f'))"
    if y: "digest_ok (xhash y)" "update y f = Inr f'" "hash f' \<noteq> hash f" for y f'
  proof -
    have inv': "indexed_once f'" using indexed_once_update [OF inv y(1,2)] by simp
    from y(2,3) have f': "f' = reset_hashFail (update_hash y (update_name y f))"
      by (auto simp: update_def split: if_splits)
    then have same: "self f' = self f" by simp
    from f' y(3) have ne: "hash (update_name y f) \<noteq> xhash y" by simp
    have "self f \<in> idx f' (hash f')" if "hash f' \<noteq> JUndefined"
      using that y(1) ne
      by (simp add: f' update_hash_def idx_index digest_ok_truthy)
    moreover have "self f \<notin> idx f' (hash f)"
      using indexed_onceD(1) [OF inv', of "hash f"] y(3) same by auto
    ultimately show ?thesis by simp
  qed
  from first second show ?thesis by blast
qed

theorem digest_indexed_exactly_once_witness:
  "File 0 (\<lambda>d. {}) [] 0 xstat_a = Inr file_0
   \<and> digest_ok (xhash xstat_a)
   \<and> list_all event_ok [Attach [JStr ''root''], WorkerFinish 0 xstat_h]
   \<and> run file_0 [Attach [JStr ''root''], WorkerFinish 0 xstat_h] = Inr file_1
   \<and> parent file_1 = Some [JStr ''root'']
   \<and> hash file_1 = JStr ''0f''
   \<and> self file_1 \<in> idx file_1 (JStr ''0f'')
   \<and> update xstat_a file_1 = Inr (projr (update xstat_a file_1))
   \<and> hash (projr (update xstat_a file_1)) = JUndefined
   \<and> self file_1 \<notin> idx (projr (update xstat_a file_1)) (JStr ''0f'')"
proof -
  have h1: "File 0 (\<lambda>d. {}) [] 0 xstat_a = Inr file_0"
    by (simp add: model_defs file_a_defs)
  have h2: "\<forall>d. (0::nat) \<notin> (\<lambda>d. {}) d" by simp
  have h3: "digest_ok (xhash xstat_a)" by (simp add: digest_ok_def xstat_a_def)
  have h4: "list_all event_ok [Attach [JStr ''root''], WorkerFinish 0 xstat_h]"
    by (simp add: digest_ok_def xstat_h_def xstat_a_def)
  have h5: "run file_0 [Attach [JStr ''root''], WorkerFinish 0 xstat_h] = Inr file_1"
    by (simp add: file_1_def model_defs file_a_defs xstat_h_def)
  have p: "parent file_1 = Some [JStr ''root'']" and h: "hash file_1 = JStr ''0f''"
    by (simp_all add: file_1_def model_defs file_a_defs xstat_h_def)
  from digest_indexed_exactly_once [OF h1 h2 h3 h4 h5, THEN conjunct1] p h
  have i: "self file_1 \<in> idx file_1 (JStr ''0f'')" by simp
  have u: "update xstat_a file_1 = Inr (projr (update xstat_a file_1))"
    and hu: "hash (projr (update xstat_a file_1)) = JUndefined"
    by (simp_all add: file_1_def model_defs file_a_defs xstat_h_def)
  from digest_indexed_exactly_once [OF h1 h2 h3 h4 h5, THEN conjunct2, rule_format, OF h3 u] h hu
  have "self file_1 \<notin> idx (projr (update xstat_a file_1)) (JStr ''0f'')" by simp
  with i u hu h1 h3 h4 h5 p h show ?thesis by simp
qed

section \<open>Chunked hashing\<close>

declare pieces.simps [simp del]

lemma SIZE_1G_pos: "0 < SIZE_1G"
  by (simp add: SIZE_1G_def)

lemma pieces_small: "length bs < n \<Longrightarrow> pieces n bs = [bs]"
  by (subst pieces.simps) simp

lemma pieces_big: "0 < n \<Longrightarrow> n \<le> length bs \<Longrightarrow> pieces n bs = take n bs # pieces n (drop n bs)"
  by (subst pieces.simps) simp

lemma pieces_not_Nil: "pieces n bs \<noteq> []"
  by (subst pieces.simps) simp

lemma slice_take: "0 \<le> k \<Longrightarrow> slice c 0 k = take (nat k) c"
  by (simp add: slice_def clamp_index_def Let_def min_def)

lemma slice_from_drop: "0 \<le> k \<Longrightarrow> slice_from c k = drop (nat k) c"
  by (simp add: slice_from_def clamp_index_def min_def)

text \<open>One data event when the segment is not yet full.\<close>

lemma rs_data_below:
  assumes "size' t = int (length (hashMaker t))"
    and "length (hashMaker t) + length c < SIZE_1G"
  shows "rs_data H c t = t\<lparr> size' := int (length (hashMaker t @ c)), hashMaker := hashMaker t @ c \<rparr>"
  using assms by (simp add: rs_data_def)

text \<open>One data event that fills the segment.\<close>

lemma rs_data_full:
  assumes "size' t = int (length (hashMaker t))"
    and "length (hashMaker t) < SIZE_1G"
    and "SIZE_1G \<le> length (hashMaker t) + length c"
  shows "rs_data H c t =
     t\<lparr> hashArr := hashArr t @ [H (hashMaker t @ take (SIZE_1G - length (hashMaker t)) c)],
        size' := int (length (drop (SIZE_1G - length (hashMaker t)) c)),
        hashMaker := drop (SIZE_1G - length (hashMaker t)) c \<rparr>"
proof -
  let ?d = "int SIZE_1G - int (length (hashMaker t))"
  have k: "0 \<le> ?d" "nat ?d = SIZE_1G - length (hashMaker t)"
    using assms(2) by simp_all
  have "slice c 0 ?d = take (SIZE_1G - length (hashMaker t)) c"
    and "slice_from c ?d = drop (SIZE_1G - length (hashMaker t)) c"
    using slice_take [OF k(1), of c] slice_from_drop [OF k(1), of c] by (simp_all only: k(2))
  then show ?thesis
    using assms(1,3) by (simp add: rs_data_def Let_def)
qed

lemma feed_frame [simp]:
  "finished (feed H t cs) = finished t" "called (feed H t cs) = called t"
  by (induction cs arbitrary: t) (simp_all add: rs_data_def Let_def)

lemma feed_pieces:
  assumes "list_all (\<lambda>c. length c \<le> SIZE_1G) cs"
    and "size' t = int (length (hashMaker t))"
    and "length (hashMaker t) < SIZE_1G"
  shows "hashArr (feed H t cs) = hashArr t @ map H (butlast (pieces SIZE_1G (hashMaker t @ concat cs)))
       \<and> hashMaker (feed H t cs) = last (pieces SIZE_1G (hashMaker t @ concat cs))"
  using assms
proof (induction cs arbitrary: t)
  case Nil
  then show ?case by (simp add: pieces_small)
next
  case (Cons c cs)
  let ?hm = "hashMaker t"
  from Cons.prems(1) have c: "length c \<le> SIZE_1G" and cs: "list_all (\<lambda>c. length c \<le> SIZE_1G) cs"
    by simp_all
  show ?case
  proof (cases "length ?hm + length c < SIZE_1G")
    case True
    let ?t = "rs_data H c t"
    have t': "?t = t\<lparr> size' := int (length (?hm @ c)), hashMaker := ?hm @ c \<rparr>"
      using rs_data_below [OF Cons.prems(2) True] .
    have "hashArr (feed H ?t cs) = hashArr ?t @ map H (butlast (pieces SIZE_1G (hashMaker ?t @ concat cs)))
       \<and> hashMaker (feed H ?t cs) = last (pieces SIZE_1G (hashMaker ?t @ concat cs))"
      using True by (intro Cons.IH [OF cs]) (simp_all add: t')
    then show ?thesis by (simp add: t')
  next
    case False
    let ?k = "SIZE_1G - length ?hm"
    let ?t = "rs_data H c t"
    have t': "?t = t\<lparr> hashArr := hashArr t @ [H (?hm @ take ?k c)],
        size' := int (length (drop ?k c)), hashMaker := drop ?k c \<rparr>"
      using rs_data_full [OF Cons.prems(2,3)] False by simp
    have small: "length (drop ?k c) < SIZE_1G"
      using c Cons.prems(3) by simp
    have ih: "hashArr (feed H ?t cs) = hashArr ?t @ map H (butlast (pieces SIZE_1G (hashMaker ?t @ concat cs)))
       \<and> hashMaker (feed H ?t cs) = last (pieces SIZE_1G (hashMaker ?t @ concat cs))"
      using small by (intro Cons.IH [OF cs]) (simp_all add: t')
    have kc: "?k \<le> length c" using False by simp
    have tk: "take SIZE_1G (?hm @ c @ concat cs) = ?hm @ take ?k c"
      using kc Cons.prems(3) by simp
    have dr: "drop SIZE_1G (?hm @ c @ concat cs) = drop ?k c @ concat cs"
      using kc Cons.prems(3) by simp
    have "pieces SIZE_1G (?hm @ c @ concat cs) =
        take SIZE_1G (?hm @ c @ concat cs) # pieces SIZE_1G (drop SIZE_1G (?hm @ c @ concat cs))"
      by (rule pieces_big [OF SIZE_1G_pos]) (use False in simp)
    then have "pieces SIZE_1G (?hm @ c @ concat cs) =
        (?hm @ take ?k c) # pieces SIZE_1G (drop ?k c @ concat cs)"
      by (simp only: tk dr)
    then show ?thesis using ih by (simp add: t' pieces_not_Nil)
  qed
qed

lemma chain_foldl:
  "chain H hm (x # xs) = Some (foldl (\<lambda>acc l. H (acc @ l)) (H (hm @ x)) xs)"
  by (induction xs arbitrary: hm x) (simp_all add: Buffer_from_def)

lemma rs_close_result:
  assumes "\<not> finished t"
  shows "hashArr (rs_close H t) = hashArr t @ [H (hashMaker t)]
       \<and> called (rs_close H t) = called t @ [Success (chained_combine H (hashArr t @ [H (hashMaker t)]))]"
proof (cases "hashArr t")
  case Nil
  with assms show ?thesis
    by (simp add: rs_close_def finish_def chained_combine_def Let_def)
next
  case (Cons l ls)
  then obtain y ys where ys: "ls @ [H (hashMaker t)] = y # ys"
    by (cases ls) auto
  with Cons assms show ?thesis
    by (simp add: rs_close_def finish_def chained_combine_def Let_def chain_foldl Buffer_from_def)
qed

lemma storeFile_pieces:
  assumes "list_all (\<lambda>c. length c \<le> SIZE_1G) cs"
  shows "hashArr (storeFile H cs) = map H (pieces SIZE_1G (concat cs))
       \<and> called (storeFile H cs) = [Success (chained_combine H (map H (pieces SIZE_1G (concat cs))))]"
proof -
  have f: "hashArr (feed H Transfer_1 cs) = map H (butlast (pieces SIZE_1G (concat cs)))"
      "hashMaker (feed H Transfer_1 cs) = last (pieces SIZE_1G (concat cs))"
    using feed_pieces [OF assms, of Transfer_1 H] SIZE_1G_pos by (simp_all add: Transfer_1_def)
  have nf: "\<not> finished (feed H Transfer_1 cs)" "called Transfer_1 = []"
    by (simp_all add: Transfer_1_def)
  have "map H (butlast (pieces SIZE_1G (concat cs))) @ [H (last (pieces SIZE_1G (concat cs)))]
      = map H (pieces SIZE_1G (concat cs))"
    using pieces_not_Nil [of SIZE_1G "concat cs"]
    by (metis append_butlast_last_id list.simps(8,9) map_append)
  then show ?thesis
    using rs_close_result [OF nf(1), of H] by (simp add: storeFile_def f nf(2))
qed

lemma pieces_two_and_a_half:
  assumes "0 < n" and "2 * length bs = 5 * n"
  shows "pieces n bs = [take n bs, take n (drop n bs), drop (2 * n) bs]"
proof -
  have "pieces n bs = take n bs # pieces n (drop n bs)"
    using assms by (intro pieces_big) simp_all
  also have "pieces n (drop n bs) = take n (drop n bs) # pieces n (drop n (drop n bs))"
    using assms by (intro pieces_big) simp_all
  also have "pieces n (drop n (drop n bs)) = [drop n (drop n bs)]"
    using assms by (intro pieces_small) simp
  finally show ?thesis by (simp add: mult_2)
qed

lemma pieces_exact:
  assumes "0 < n"
  shows "length bs = k * n \<Longrightarrow> pieces n bs = map (\<lambda>i. take n (drop (i * n) bs)) [0..<k] @ [[]]"
proof (induction k arbitrary: bs)
  case 0
  then show ?case using assms by (simp add: pieces_small)
next
  case (Suc k)
  have "pieces n bs = take n bs # pieces n (drop n bs)"
    using assms Suc.prems by (intro pieces_big) simp_all
  moreover have "pieces n (drop n bs) = map (\<lambda>i. take n (drop (i * n) (drop n bs))) [0..<k] @ [[]]"
    using Suc.prems by (intro Suc.IH) simp
  moreover have "map (\<lambda>i. take n (drop (i * n) bs)) [0..<Suc k]
      = take n bs # map (\<lambda>i. take n (drop (i * n) (drop n bs))) [0..<k]"
    by (simp add: upt_conv_Cons map_Suc_upt [symmetric] add.commute del: upt_Suc)
  ultimately show ?case by simp
qed

lemma chunks_1G_ok:
  "list_all (\<lambda>c. length c \<le> SIZE_1G) chunks_1G" "length (concat chunks_1G) = 1 * SIZE_1G"
  by (simp_all add: chunks_1G_def SIZE_1G_def list_all_iff length_concat sum_list_replicate)

lemma chunks_2_5G_ok:
  "list_all (\<lambda>c. length c \<le> SIZE_1G) chunks_2_5G" "2 * length (concat chunks_2_5G) = 5 * SIZE_1G"
  by (simp_all add: chunks_2_5G_def SIZE_1G_def list_all_iff length_concat sum_list_replicate)

text \<open>
  C3. What the code does with a file of exactly \<open>k\<close> segments (\<open>k \<ge> 1\<close>), read in
  chunks of at most one segment: the \<^verbatim>\<open>data\<close> handler pushes a leaf each time a
  segment is full, and the \<^verbatim>\<open>close\<close> handler pushes one more for the bytes left
  over, of which there are none. The result is \<open>k + 1\<close> leaves, the last one the
  digest of the empty content.
\<close>

theorem storeFile_exact_multiple:
  assumes "list_all (\<lambda>c. length c \<le> SIZE_1G) chunks"
    and "length (concat chunks) = k * SIZE_1G" and "1 \<le> k"
  shows "length (hashArr (storeFile H chunks)) = k + 1
       \<and> last (hashArr (storeFile H chunks)) = H []"
  using storeFile_pieces [OF assms(1), of H] pieces_exact [OF SIZE_1G_pos assms(2)]
  by simp

theorem storeFile_exact_multiple_witness:
  "list_all (\<lambda>c. length c \<le> SIZE_1G) chunks_1G
   \<and> length (concat chunks_1G) = 1 * SIZE_1G
   \<and> (\<forall>H. length (hashArr (storeFile H chunks_1G)) = 2
          \<and> last (hashArr (storeFile H chunks_1G)) = H [])"
proof -
  have "length (hashArr (storeFile H chunks_1G)) = 2
      \<and> last (hashArr (storeFile H chunks_1G)) = H []" for H
    using storeFile_exact_multiple [OF chunks_1G_ok, where H = H] by simp
  then show ?thesis using chunks_1G_ok by blast
qed

text \<open>
  C6. For a file of exactly two and a half segments, read in chunks of at most
  one segment, the leaves are the digests of the first segment, of the second
  segment and of the remaining half, in this order, and the callback receives
  \<open>H (H (l0 @ l1) @ l2)\<close>. Whenever there is exactly one leaf, the callback
  receives that leaf.
\<close>

theorem storeFile_two_and_a_half:
  assumes "list_all (\<lambda>c. length c \<le> SIZE_1G) chunks"
  shows "(2 * length (concat chunks) = 5 * SIZE_1G \<longrightarrow>
            hashArr (storeFile H chunks) =
              [H (take SIZE_1G (concat chunks)),
               H (take SIZE_1G (drop SIZE_1G (concat chunks))),
               H (drop (2 * SIZE_1G) (concat chunks))]
            \<and> called (storeFile H chunks) =
              [Success (H (H (H (take SIZE_1G (concat chunks)) @
                              H (take SIZE_1G (drop SIZE_1G (concat chunks)))) @
                           H (drop (2 * SIZE_1G) (concat chunks))))])
       \<and> (length (hashArr (storeFile H chunks)) = 1 \<longrightarrow>
            called (storeFile H chunks) = [Success (hd (hashArr (storeFile H chunks)))])"
proof -
  note sp = storeFile_pieces [OF assms, of H]
  have one: "called (storeFile H chunks) = [Success (hd (hashArr (storeFile H chunks)))]"
    if "length (hashArr (storeFile H chunks)) = 1"
  proof -
    from that obtain l where "hashArr (storeFile H chunks) = [l]"
      by (cases "hashArr (storeFile H chunks)") auto
    then show ?thesis using sp by (simp add: chained_combine_def)
  qed
  have three: "hashArr (storeFile H chunks) =
              [H (take SIZE_1G (concat chunks)),
               H (take SIZE_1G (drop SIZE_1G (concat chunks))),
               H (drop (2 * SIZE_1G) (concat chunks))]
            \<and> called (storeFile H chunks) =
              [Success (H (H (H (take SIZE_1G (concat chunks)) @
                              H (take SIZE_1G (drop SIZE_1G (concat chunks)))) @
                           H (drop (2 * SIZE_1G) (concat chunks))))]"
    if "2 * length (concat chunks) = 5 * SIZE_1G"
    using sp pieces_two_and_a_half [OF SIZE_1G_pos that]
    by (simp add: chained_combine_def)
  from one three show ?thesis by blast
qed

theorem storeFile_two_and_a_half_witness:
  "list_all (\<lambda>c. length c \<le> SIZE_1G) chunks_2_5G
   \<and> 2 * length (concat chunks_2_5G) = 5 * SIZE_1G
   \<and> (\<forall>H. length (hashArr (storeFile H chunks_2_5G)) = 3
          \<and> called (storeFile H chunks_2_5G) =
              [Success (H (H (hashArr (storeFile H chunks_2_5G) ! 0 @
                              hashArr (storeFile H chunks_2_5G) ! 1) @
                           hashArr (storeFile H chunks_2_5G) ! 2))])
   \<and> (\<forall>H. length (hashArr (storeFile H [''abc''])) = 1
          \<and> called (storeFile H [''abc'']) = [Success (H ''abc'')])"
proof -
  have small: "list_all (\<lambda>c. length c \<le> SIZE_1G) [''abc'']"
    by (simp add: SIZE_1G_def)
  have one: "hashArr (storeFile H [''abc'']) = [H ''abc'']" for H
    by (simp add: storeFile_def rs_close_def rs_data_def Transfer_1_def finish_def SIZE_1G_def Let_def)
  have "length (hashArr (storeFile H [''abc''])) = 1
      \<and> called (storeFile H [''abc'']) = [Success (H ''abc'')]" for H
    using storeFile_two_and_a_half [OF small, of H] one [of H] by simp
  moreover have "length (hashArr (storeFile H chunks_2_5G)) = 3
          \<and> called (storeFile H chunks_2_5G) =
              [Success (H (H (hashArr (storeFile H chunks_2_5G) ! 0 @
                              hashArr (storeFile H chunks_2_5G) ! 1) @
                           hashArr (storeFile H chunks_2_5G) ! 2))]" for H
    using storeFile_two_and_a_half [OF chunks_2_5G_ok(1), of H] chunks_2_5G_ok(2) by simp
  ultimately show ?thesis using chunks_2_5G_ok by blast
qed

end
